theory Spec2Isabelle
  imports Main "HOL-Library.Multiset"
begin

section \<open>USCIS case tracker: reconciler, history store and diff engine\<close>

text \<open>
  A shallow embedding of the core of \<^verbatim>\<open>uscis-tracker/uscis-tracker.user.js\<close>
  (version 0.5, the second script of the file): \<^verbatim>\<open>getEventCodeDescription\<close>, the
  normalisation done by \<^verbatim>\<open>fetchCaseData\<close>, the history functions over
  \<^verbatim>\<open>localStorage\<close> and \<^verbatim>\<open>detectFieldHighlights\<close>.

  JavaScript is untyped; the model types every value with the shape the script itself
  writes and reads. A property that may be missing (and then reads as \<^verbatim>\<open>undefined\<close>)
  is an \<open>option\<close>, with \<open>None\<close> for \<^verbatim>\<open>undefined\<close>. An exception is a value of
  \<open>error\<close>. Values of other shapes (a number where a string is expected, \<^verbatim>\<open>null\<close>
  where an object is expected, a case id that names a property of \<^verbatim>\<open>Object.prototype\<close>)
  are outside the model.
\<close>

datatype error = TypeError | SyntaxError

subsection \<open>Event codes\<close>

definition EVENT_CODES :: "(string \<times> string) list" where
  "EVENT_CODES =
     [(''IAF'', ''Receipt letter emailed''),
      (''FTA0'', ''Biometrics / database checks received''),
      (''SA'', ''Status Adjusted''),
      (''LDA'', ''Card Produced''),
      (''H008'', ''Case Approved''),
      (''H016'', ''Case Denied''),
      (''IKA'', ''RFE issued'')]"

text \<open>
  \<^verbatim>\<open>String.prototype.toUpperCase\<close> on ASCII text: the letters a to z go to A to Z and every
  other character stays. The model's strings are ASCII, as the event codes are.
\<close>

definition toUpperCaseChar :: "char \<Rightarrow> char" where
  "toUpperCaseChar c =
     (case map_of (zip ''abcdefghijklmnopqrstuvwxyz'' ''ABCDEFGHIJKLMNOPQRSTUVWXYZ'') c of
        Some u \<Rightarrow> u
      | None \<Rightarrow> c)"

definition toUpperCase :: "string \<Rightarrow> string" where
  "toUpperCase s = map toUpperCaseChar s"

text \<open>
  \<^verbatim>\<open>key.toUpperCase()\<close> raises a TypeError when \<^verbatim>\<open>key\<close> is \<^verbatim>\<open>undefined\<close>;
  \<^verbatim>\<open>Map.prototype.get\<close> gives \<^verbatim>\<open>undefined\<close> for an absent key, which \<^verbatim>\<open>??\<close> replaces.
\<close>

definition getEventCodeDescription :: "string option \<Rightarrow> error + string" where
  "getEventCodeDescription key =
     (case key of
        None \<Rightarrow> Inl TypeError
      | Some k \<Rightarrow>
          (let normalizedKey = toUpperCase k in
           Inr (case map_of EVENT_CODES normalizedKey of
                  Some d \<Rightarrow> d
                | None \<Rightarrow> ''Unknown'')))"

subsection \<open>Records\<close>

text \<open>The payload of the case service: \<^verbatim>\<open>statusData.data\<close> and its events.\<close>

record rawEvent =
  eventCode :: "string option"
  updatedAtTimestamp :: "string option"

record caseInfo =
  formType :: "string option"
  formName :: "string option"
  closed :: "bool option"
  updatedAt :: "string option"
  updatedAtTimestamp :: "string option"
  events :: "rawEvent list option"

record statusData =
  data :: "caseInfo option"

text \<open>The objects \<^verbatim>\<open>fetchCaseData\<close> builds; \<open>'d\<close> is the opaque documents payload.\<close>

record event =
  eventCode :: "string option"
  eventDesc :: string
  updatedAtTimestamp :: "string option"

record 'd caseRecord =
  caseNumber :: string
  formType :: "string option"
  formName :: "string option"
  closed :: "bool option"
  updatedAt :: "string option"
  updatedAtTimestamp :: "string option"
  currentActionCode :: "string option"
  currentActionDesc :: "string option"
  events :: "event list option"
  documents :: 'd
  lastFetched :: string

text \<open>
  A cases object (\<^verbatim>\<open>newData\<close>, \<^verbatim>\<open>casesData\<close>, \<^verbatim>\<open>oldCases\<close>): its own properties in
  the order of \<^verbatim>\<open>Object.keys\<close>. \<^verbatim>\<open>obj[k]\<close> is \<open>map_of obj k\<close>.
\<close>

type_synonym 'd casesData = "(string \<times> 'd caseRecord) list"

subsection \<open>Normalisation in fetchCaseData\<close>

text \<open>
  \<^verbatim>\<open>new Date(v)\<close> as a number of milliseconds, \<open>None\<close> for an invalid date (NaN). The
  parsing of date strings belongs to the JavaScript engine and is a parameter,
  \<open>parseDate\<close>; \<^verbatim>\<open>new Date(undefined)\<close> is invalid.
\<close>

definition dateMs :: "(string \<Rightarrow> int option) \<Rightarrow> string option \<Rightarrow> int option" where
  "dateMs parseDate v = (case v of None \<Rightarrow> None | Some s \<Rightarrow> parseDate s)"

text \<open>
  The comparator \<^verbatim>\<open>(a, b) => new Date(b.updatedAtTimestamp) - new Date(a.updatedAtTimestamp)\<close>.
  A NaN result counts as 0 for \<^verbatim>\<open>Array.prototype.sort\<close>. Time values are integers, so
  the sign of the floating-point difference is the sign of the exact one.
\<close>

definition compareEvents :: "(string \<Rightarrow> int option) \<Rightarrow> event \<Rightarrow> event \<Rightarrow> int" where
  "compareEvents parseDate a b =
     (case (dateMs parseDate (event.updatedAtTimestamp b),
            dateMs parseDate (event.updatedAtTimestamp a)) of
        (Some tb, Some ta) \<Rightarrow> tb - ta
      | _ \<Rightarrow> 0)"

text \<open>
  \<^verbatim>\<open>Array.prototype.sort\<close> with a comparator, as a stable insertion sort: an element
  goes before the first one it does not compare greater than. With a consistent comparator
  every conforming (stable) sort returns this list; with an inconsistent one (NaN among the
  results) the standard leaves the order to the engine, and the model fixes this one.
\<close>

fun insertBy :: "('a \<Rightarrow> 'a \<Rightarrow> int) \<Rightarrow> 'a \<Rightarrow> 'a list \<Rightarrow> 'a list" where
  "insertBy cmp x [] = [x]"
| "insertBy cmp x (y # ys) = (if cmp x y \<le> 0 then x # y # ys else y # insertBy cmp x ys)"

definition array_sort :: "('a \<Rightarrow> 'a \<Rightarrow> int) \<Rightarrow> 'a list \<Rightarrow> 'a list" where
  "array_sort cmp xs = foldr (insertBy cmp) xs []"

text \<open>\<^verbatim>\<open>Array.prototype.map\<close> with a callback that may throw: the first exception ends it.\<close>

fun array_map :: "('a \<Rightarrow> error + 'b) \<Rightarrow> 'a list \<Rightarrow> error + 'b list" where
  "array_map f [] = Inr []"
| "array_map f (x # xs) =
     (case f x of
        Inl e \<Rightarrow> Inl e
      | Inr y \<Rightarrow> (case array_map f xs of Inl e \<Rightarrow> Inl e | Inr ys \<Rightarrow> Inr (y # ys)))"

text \<open>The callback of \<^verbatim>\<open>.map\<close> in \<^verbatim>\<open>fetchCaseData\<close>.\<close>

definition normalizeEvent :: "rawEvent \<Rightarrow> error + event" where
  "normalizeEvent ev =
     (case getEventCodeDescription (rawEvent.eventCode ev) of
        Inl e \<Rightarrow> Inl e
      | Inr d \<Rightarrow>
          Inr \<lparr>eventCode = rawEvent.eventCode ev,
               eventDesc = d,
               event.updatedAtTimestamp = rawEvent.updatedAtTimestamp ev\<rparr>)"

text \<open>\<^verbatim>\<open>statusData.data || {}\<close>: the empty object has no property.\<close>

definition emptyCaseInfo :: caseInfo where
  "emptyCaseInfo =
     \<lparr>caseInfo.formType = None, caseInfo.formName = None, caseInfo.closed = None,
      caseInfo.updatedAt = None, caseInfo.updatedAtTimestamp = None, caseInfo.events = None\<rparr>"

text \<open>
  \<^verbatim>\<open>fetchCaseData\<close>. The two awaited responses are arguments (\<open>Inl\<close> when the fetch or
  its \<^verbatim>\<open>json()\<close> fails), and so are the clock reading \<open>now\<close> of
  \<^verbatim>\<open>new Date().toISOString()\<close> and the engine's date parser. The \<^verbatim>\<open>catch\<close> turns every
  exception into \<^verbatim>\<open>null\<close>, here \<open>None\<close>.
\<close>

definition fetchCaseData ::
  "(string \<Rightarrow> int option) \<Rightarrow> string \<Rightarrow> string \<Rightarrow> error + statusData \<Rightarrow> error + 'd
     \<Rightarrow> 'd caseRecord option" where
  "fetchCaseData parseDate now caseNum statusFetch docFetch =
     (case statusFetch of
        Inl e \<Rightarrow> None
      | Inr statusData \<Rightarrow>
     (case docFetch of
        Inl e \<Rightarrow> None
      | Inr documentsData \<Rightarrow>
     (let caseInfo = (case data statusData of None \<Rightarrow> emptyCaseInfo | Some ci \<Rightarrow> ci) in
      case array_map normalizeEvent
             (case caseInfo.events caseInfo of None \<Rightarrow> [] | Some es \<Rightarrow> es) of
        Inl e \<Rightarrow> None
      | Inr mapped \<Rightarrow>
          (let sortedEvents = array_sort (compareEvents parseDate) mapped in
           Some \<lparr>caseNumber = caseNum,
                 formType = caseInfo.formType caseInfo,
                 formName = caseInfo.formName caseInfo,
                 closed = caseInfo.closed caseInfo,
                 updatedAt = caseInfo.updatedAt caseInfo,
                 updatedAtTimestamp = caseInfo.updatedAtTimestamp caseInfo,
                 currentActionCode =
                   (case sortedEvents of [] \<Rightarrow> None | e # _ \<Rightarrow> event.eventCode e),
                 currentActionDesc =
                   (case sortedEvents of [] \<Rightarrow> None | e # _ \<Rightarrow> Some (eventDesc e)),
                 events = Some sortedEvents,
                 documents = documentsData,
                 lastFetched = now\<rparr>))))"

text \<open>
  \<^verbatim>\<open>new Date(a) >= new Date(b)\<close>, the order the events are to be in: false as soon as one
  side is an invalid date.
\<close>

definition timestampGe :: "(string \<Rightarrow> int option) \<Rightarrow> event \<Rightarrow> event \<Rightarrow> bool" where
  "timestampGe parseDate a b =
     (case (dateMs parseDate (event.updatedAtTimestamp a),
            dateMs parseDate (event.updatedAtTimestamp b)) of
        (Some ta, Some tb) \<Rightarrow> tb \<le> ta
      | _ \<Rightarrow> False)"

definition validEvent :: "(string \<Rightarrow> int option) \<Rightarrow> event \<Rightarrow> bool" where
  "validEvent parseDate e = (dateMs parseDate (event.updatedAtTimestamp e) \<noteq> None)"

text \<open>The raw events of a payload, \<^verbatim>\<open>(statusData.data || {}).events || []\<close>.\<close>

definition rawEvents :: "statusData \<Rightarrow> rawEvent list" where
  "rawEvents statusData =
     (case caseInfo.events (case data statusData of None \<Rightarrow> emptyCaseInfo | Some ci \<Rightarrow> ci) of
        None \<Rightarrow> []
      | Some es \<Rightarrow> es)"

text \<open>A raw event whose timestamp is a string that the engine reads as a date.\<close>

definition validTimestamp :: "(string \<Rightarrow> int option) \<Rightarrow> rawEvent \<Rightarrow> bool" where
  "validTimestamp parseDate ev = (dateMs parseDate (rawEvent.updatedAtTimestamp ev) \<noteq> None)"

subsection \<open>History store\<close>

text \<open>
  \<^verbatim>\<open>localStorage\<close> maps a key to a string. The strings matter here only through
  \<^verbatim>\<open>JSON.parse\<close> and the truthiness test, so a stored string is one of: the empty string
  (falsy), a non-empty string that \<^verbatim>\<open>JSON.parse\<close> rejects, or the serialisation
  \<^verbatim>\<open>JSON.stringify(v)\<close> of a value \<open>v\<close>, which \<^verbatim>\<open>JSON.parse\<close> reads back as \<open>v\<close>.
  The values are the two shapes the script stores: the history array of
  \<^verbatim>\<open>{cases, savedAt}\<close> and the single object \<^verbatim>\<open>{cases, lastFetch}\<close>. Serialising
  drops a property whose value is \<^verbatim>\<open>undefined\<close>, and a dropped property reads as
  \<^verbatim>\<open>undefined\<close>: both are \<open>None\<close>. A write is taken to succeed (no storage quota).
\<close>

record 'd snapshot =
  cases :: "'d casesData"
  savedAt :: string

record 'd legacySnapshot =
  cases :: "'d casesData option"
  lastFetch :: string

datatype 'd json = JHistory "'d snapshot list" | JLegacy "'d legacySnapshot"

datatype 'd item = EmptyString | Malformed | Stringified "'d json"

type_synonym 'd localStorage = "string \<rightharpoonup> 'd item"

definition STORAGE_KEY :: string where
  "STORAGE_KEY = ''uscis_cases_data''"

definition HISTORY_KEY :: string where
  "HISTORY_KEY = ''uscis_cases_history''"

definition getItem :: "string \<Rightarrow> 'd localStorage \<Rightarrow> 'd item option" where
  "getItem k st = st k"

definition setItem :: "string \<Rightarrow> 'd item \<Rightarrow> 'd localStorage \<Rightarrow> 'd localStorage" where
  "setItem k v st = st(k \<mapsto> v)"

definition removeItem :: "string \<Rightarrow> 'd localStorage \<Rightarrow> 'd localStorage" where
  "removeItem k st = st(k := None)"

definition JSON_stringify :: "'d json \<Rightarrow> 'd item" where
  "JSON_stringify v = Stringified v"

definition JSON_parse :: "'d item \<Rightarrow> error + 'd json" where
  "JSON_parse s =
     (case s of
        EmptyString \<Rightarrow> Inl SyntaxError
      | Malformed \<Rightarrow> Inl SyntaxError
      | Stringified v \<Rightarrow> Inr v)"

text \<open>
  The functions of the store return their result together with the storage they leave.
  \<^verbatim>\<open>getItem(k) || '[]'\<close> takes the default for \<^verbatim>\<open>null\<close> and for the empty string.
\<close>

definition getHistory :: "'d localStorage \<Rightarrow> (error + 'd json) \<times> 'd localStorage" where
  "getHistory st =
     (JSON_parse
        (case getItem HISTORY_KEY st of
           None \<Rightarrow> JSON_stringify (JHistory [])
         | Some s \<Rightarrow> if s = EmptyString then JSON_stringify (JHistory []) else s),
      st)"

text \<open>
  \<^verbatim>\<open>history.length > 0\<close>: an array has its length; the object \<^verbatim>\<open>{cases, lastFetch}\<close>
  has no \<^verbatim>\<open>length\<close>, and \<^verbatim>\<open>undefined > 0\<close> is false.
\<close>

definition getLastSavedCases ::
  "'d localStorage \<Rightarrow> (error + 'd casesData) \<times> 'd localStorage" where
  "getLastSavedCases st =
     (case getHistory st of
        (Inl e, st1) \<Rightarrow> (Inl e, st1)
      | (Inr history, st1) \<Rightarrow>
          (case (case history of
                   JHistory h \<Rightarrow>
                     if length h > 0 then Some (snapshot.cases (h ! (length h - 1))) else None
                 | JLegacy _ \<Rightarrow> None) of
             Some c \<Rightarrow> (Inr c, st1)
           | None \<Rightarrow>
               (case getItem STORAGE_KEY st1 of
                  None \<Rightarrow> (Inr [], st1)
                | Some legacy \<Rightarrow>
                    if legacy = EmptyString then (Inr [], st1)
                    else (case JSON_parse legacy of
                            Inl e \<Rightarrow> (Inl e, st1)
                          | Inr parsed \<Rightarrow>
                              (Inr (case (case parsed of
                                            JLegacy l \<Rightarrow> legacySnapshot.cases l
                                          | JHistory _ \<Rightarrow> None) of
                                      Some c \<Rightarrow> c
                                    | None \<Rightarrow> []),
                               st1)))))"

text \<open>
  \<^verbatim>\<open>saveToHistory\<close>; \<open>savedAtNow\<close> and \<open>lastFetchNow\<close> are the two clock readings.
  \<^verbatim>\<open>history.push\<close> exists on an array only.
\<close>

definition saveToHistory ::
  "string \<Rightarrow> string \<Rightarrow> 'd casesData \<Rightarrow> 'd localStorage \<Rightarrow> (error + unit) \<times> 'd localStorage" where
  "saveToHistory savedAtNow lastFetchNow casesData st =
     (case getHistory st of
        (Inl e, st1) \<Rightarrow> (Inl e, st1)
      | (Inr history, st1) \<Rightarrow>
          (case history of
             JLegacy _ \<Rightarrow> (Inl TypeError, st1)
           | JHistory h \<Rightarrow>
               (let history' = JHistory (h @ [\<lparr>snapshot.cases = casesData, savedAt = savedAtNow\<rparr>]);
                    st2 = setItem HISTORY_KEY (JSON_stringify history') st1;
                    st3 = setItem STORAGE_KEY
                            (JSON_stringify
                               (JLegacy \<lparr>legacySnapshot.cases = Some casesData,
                                         lastFetch = lastFetchNow\<rparr>)) st2
                in (Inr (), st3))))"

definition clearAllHistory :: "'d localStorage \<Rightarrow> 'd localStorage" where
  "clearAllHistory st = removeItem STORAGE_KEY (removeItem HISTORY_KEY st)"

text \<open>
  Consecutive calls of \<^verbatim>\<open>saveToHistory\<close>, one per element (the two clock readings and
  the cases object), ending at the first exception.
\<close>

fun saveAll ::
  "(string \<times> string \<times> 'd casesData) list \<Rightarrow> 'd localStorage \<Rightarrow> (error + unit) \<times> 'd localStorage" where
  "saveAll [] st = (Inr (), st)"
| "saveAll ((t1, t2, c) # rest) st =
     (case saveToHistory t1 t2 c st of
        (Inl e, st') \<Rightarrow> (Inl e, st')
      | (Inr _, st') \<Rightarrow> saveAll rest st')"

text \<open>The number of snapshots the stored history holds, when it can be read.\<close>

definition historyLength :: "'d localStorage \<Rightarrow> nat option" where
  "historyLength st =
     (case fst (getHistory st) of
        Inr (JHistory h) \<Rightarrow> Some (length h)
      | _ \<Rightarrow> None)"

subsection \<open>Change detection\<close>

record highlight =
  isNew :: bool
  updatedAtChanged :: bool
  newEventIndices :: "nat set"

text \<open>A value inside a template literal: \<^verbatim>\<open>undefined\<close> prints as its name.\<close>

definition template :: "string option \<Rightarrow> string" where
  "template v = (case v of None \<Rightarrow> ''undefined'' | Some s \<Rightarrow> s)"

definition eventKey :: "event \<Rightarrow> string" where
  "eventKey e = template (event.eventCode e) @ ''_'' @ template (event.updatedAtTimestamp e)"

text \<open>\<^verbatim>\<open>c.events || []\<close>.\<close>

definition eventsOrEmpty :: "'d caseRecord \<Rightarrow> event list" where
  "eventsOrEmpty c = (case events c of None \<Rightarrow> [] | Some es \<Rightarrow> es)"

text \<open>
  The body of the \<^verbatim>\<open>forEach\<close> callback for one \<^verbatim>\<open>caseNum\<close>: the object
  \<^verbatim>\<open>highlights[caseNum]\<close> is created and then updated in place, and the result is its
  value when the callback returns, or the TypeError of reading \<^verbatim>\<open>.events\<close> of
  \<^verbatim>\<open>undefined\<close> or \<^verbatim>\<open>.forEach\<close> of \<^verbatim>\<open>undefined\<close>. A record object is truthy, so
  \<^verbatim>\<open>!oldCases[caseNum]\<close> holds exactly when the prior cases have no such property. The
  two inner \<^verbatim>\<open>forEach\<close> loops are folds over the events with their indices.
\<close>

definition highlightCase :: "'d casesData \<Rightarrow> 'd casesData \<Rightarrow> string \<Rightarrow> error + highlight" where
  "highlightCase oldCases newCases caseNum =
     (let h = \<lparr>isNew = False, updatedAtChanged = False, newEventIndices = {}\<rparr> in
      case map_of oldCases caseNum of
        None \<Rightarrow>
          (let h = h\<lparr>isNew := True\<rparr>;
               h = h\<lparr>updatedAtChanged := True\<rparr>
           in case map_of newCases caseNum of
                None \<Rightarrow> Inl TypeError
              | Some newCase \<Rightarrow>
                  (case events newCase of
                     None \<Rightarrow> Inl TypeError
                   | Some es \<Rightarrow>
                       Inr (h\<lparr>newEventIndices :=
                              fold (\<lambda>(i, _) s. insert i s) (enumerate 0 es)
                                (newEventIndices h)\<rparr>)))
      | Some oldCase \<Rightarrow>
          (case map_of newCases caseNum of
             None \<Rightarrow> Inl TypeError
           | Some newCase \<Rightarrow>
               (let h = (if updatedAtTimestamp oldCase \<noteq> updatedAtTimestamp newCase \<or>
                            updatedAt oldCase \<noteq> updatedAt newCase
                         then h\<lparr>updatedAtChanged := True\<rparr> else h);
                    oldEventKeys = set (map eventKey (eventsOrEmpty oldCase))
                in Inr (h\<lparr>newEventIndices :=
                          fold (\<lambda>(i, event) s.
                                  if eventKey event \<notin> oldEventKeys then insert i s else s)
                            (enumerate 0 (eventsOrEmpty newCase)) (newEventIndices h)\<rparr>))))"

text \<open>The outer \<^verbatim>\<open>forEach\<close> over \<^verbatim>\<open>Object.keys(newCases)\<close>, filling \<^verbatim>\<open>highlights\<close>.\<close>

fun forEachCase ::
  "'d casesData \<Rightarrow> 'd casesData \<Rightarrow> string list \<Rightarrow> (string \<rightharpoonup> highlight)
     \<Rightarrow> error + (string \<rightharpoonup> highlight)" where
  "forEachCase oldCases newCases [] highlights = Inr highlights"
| "forEachCase oldCases newCases (caseNum # rest) highlights =
     (case highlightCase oldCases newCases caseNum of
        Inl e \<Rightarrow> Inl e
      | Inr h \<Rightarrow> forEachCase oldCases newCases rest (highlights(caseNum \<mapsto> h)))"

definition detectFieldHighlights ::
  "'d casesData \<Rightarrow> 'd casesData \<Rightarrow> error + (string \<rightharpoonup> highlight)" where
  "detectFieldHighlights oldCases newCases =
     forEachCase oldCases newCases (map fst newCases) Map.empty"



text \<open>A record with its missing events list replaced by the empty list.\<close>

definition fillEvents :: "'d caseRecord \<Rightarrow> 'd caseRecord" where
  "fillEvents c = c\<lparr>events := Some (eventsOrEmpty c)\<rparr>"

definition fillAll :: "'d casesData \<Rightarrow> 'd casesData" where
  "fillAll cs = map (\<lambda>(k, c). (k, fillEvents c)) cs"

subsection \<open>Example data\<close>

text \<open>
  A prior snapshot with one case and one event, a later one where that case has a new
  event and a second case appears, and the prior one again with \<^verbatim>\<open>updatedAt\<close> written
  differently for the same instant.
\<close>

definition evIAF :: event where
  "evIAF = \<lparr>eventCode = Some ''IAF'', eventDesc = ''Receipt letter emailed'',
            event.updatedAtTimestamp = Some ''2024-01-05T09:00:00Z''\<rparr>"

definition evH008 :: event where
  "evH008 = \<lparr>eventCode = Some ''H008'', eventDesc = ''Case Approved'',
             event.updatedAtTimestamp = Some ''2024-02-10T09:00:00Z''\<rparr>"

definition mkCase ::
  "string \<Rightarrow> string option \<Rightarrow> string option \<Rightarrow> event list option \<Rightarrow> unit caseRecord" where
  "mkCase num ua uts es =
     \<lparr>caseNumber = num, formType = Some ''I-485'', formName = None, closed = Some False,
      updatedAt = ua, updatedAtTimestamp = uts,
      currentActionCode = None, currentActionDesc = None,
      events = es, documents = (), lastFetched = ''2024-03-01T10:00:00.000Z''\<rparr>"

definition priorCases :: "unit casesData" where
  "priorCases =
     [(''IOE0000000001'',
       mkCase ''IOE0000000001'' (Some ''2024-01-05T09:00:00Z'') (Some ''2024-01-05T09:00:00Z'')
         (Some [evIAF]))]"

definition laterCases :: "unit casesData" where
  "laterCases =
     [(''IOE0000000001'',
       mkCase ''IOE0000000001'' (Some ''2024-01-05T09:00:00Z'') (Some ''2024-02-10T09:00:00Z'')
         (Some [evH008, evIAF])),
      (''IOE0000000002'',
       mkCase ''IOE0000000002'' (Some ''2024-02-01T09:00:00Z'') (Some ''2024-02-01T09:00:00Z'')
         (Some [evH008, evIAF]))]"




text \<open>
  Records without an events list: one for a case that the prior snapshot has too, one for
  a case that it has not.
\<close>

definition missingEventsBoth :: "unit casesData" where
  "missingEventsBoth = [(''IOE0000000001'', mkCase ''IOE0000000001'' None None None)]"

definition missingEventsNew :: "unit casesData" where
  "missingEventsNew = [(''IOE0000000003'', mkCase ''IOE0000000003'' None None None)]"

text \<open>
  The value of \<^verbatim>\<open>new Date(s).getTime()\<close> at the three timestamps of the examples; the
  table stands for the engine's parser there and reads no other string.
\<close>

definition exampleDates :: "string \<Rightarrow> int option" where
  "exampleDates =
     map_of [(''2024-01-05T09:00:00Z'', 1704445200000),
             (''2024-01-20T15:30:00Z'', 1705764600000),
             (''2024-02-10T09:00:00Z'', 1707555600000)]"

text \<open>
  A payload of the case service with its three events oldest first, the order opposite
  to the one \<^verbatim>\<open>fetchCaseData\<close> gives them.
\<close>

definition examplePayload :: statusData where
  "examplePayload =
     \<lparr>data = Some
        \<lparr>caseInfo.formType = Some ''I-485'', caseInfo.formName = None,
         caseInfo.closed = Some False,
         caseInfo.updatedAt = Some ''2024-02-10T09:00:00Z'',
         caseInfo.updatedAtTimestamp = Some ''2024-02-10T09:00:00Z'',
         caseInfo.events = Some
           [\<lparr>rawEvent.eventCode = Some ''IAF'',
             rawEvent.updatedAtTimestamp = Some ''2024-01-05T09:00:00Z''\<rparr>,
            \<lparr>rawEvent.eventCode = Some ''fta0'',
             rawEvent.updatedAtTimestamp = Some ''2024-01-20T15:30:00Z''\<rparr>,
            \<lparr>rawEvent.eventCode = Some ''H008'',
             rawEvent.updatedAtTimestamp = Some ''2024-02-10T09:00:00Z''\<rparr>]\<rparr>\<rparr>"

definition evFTA0 :: event where
  "evFTA0 = \<lparr>eventCode = Some ''fta0'', eventDesc = ''Biometrics / database checks received'',
             event.updatedAtTimestamp = Some ''2024-01-20T15:30:00Z''\<rparr>"

text \<open>The record \<^verbatim>\<open>fetchCaseData\<close> makes of that payload at a given clock reading.\<close>

definition exampleRecord :: "string \<Rightarrow> unit caseRecord" where
  "exampleRecord now =
     \<lparr>caseNumber = ''IOE0000000001'', formType = Some ''I-485'', formName = None,
      closed = Some False,
      updatedAt = Some ''2024-02-10T09:00:00Z'',
      updatedAtTimestamp = Some ''2024-02-10T09:00:00Z'',
      currentActionCode = Some ''H008'', currentActionDesc = Some ''Case Approved'',
      events = Some [evH008, evFTA0, evIAF], documents = (), lastFetched = now\<rparr>"


text \<open>
  Storage as version 0.4 of the script leaves it, with the single snapshot and no
  history; storage whose history entry is not JSON; and storage with no history and a
  single-snapshot entry that is not JSON.
\<close>

definition legacyOnlyStorage :: "unit localStorage" where
  "legacyOnlyStorage =
     [STORAGE_KEY \<mapsto>
        JSON_stringify
          (JLegacy \<lparr>legacySnapshot.cases = Some priorCases,
                    lastFetch = ''2024-01-06T08:00:00.000Z''\<rparr>)]"



text \<open>
  The same payload with the timestamp of its second event missing, and the three events
  \<^verbatim>\<open>fetchCaseData\<close> makes of it.
\<close>

definition payloadMissingTimestamp :: statusData where
  "payloadMissingTimestamp =
     \<lparr>data = Some
        \<lparr>caseInfo.formType = Some ''I-485'', caseInfo.formName = None,
         caseInfo.closed = Some False,
         caseInfo.updatedAt = Some ''2024-02-10T09:00:00Z'',
         caseInfo.updatedAtTimestamp = Some ''2024-02-10T09:00:00Z'',
         caseInfo.events = Some
           [\<lparr>rawEvent.eventCode = Some ''IAF'',
             rawEvent.updatedAtTimestamp = Some ''2024-01-05T09:00:00Z''\<rparr>,
            \<lparr>rawEvent.eventCode = Some ''fta0'',
             rawEvent.updatedAtTimestamp = None\<rparr>,
            \<lparr>rawEvent.eventCode = Some ''H008'',
             rawEvent.updatedAtTimestamp = Some ''2024-02-10T09:00:00Z''\<rparr>]\<rparr>\<rparr>"

definition evUndated :: event where
  "evUndated = \<lparr>eventCode = Some ''fta0'', eventDesc = ''Biometrics / database checks received'',
                event.updatedAtTimestamp = None\<rparr>"

section \<open>Event code descriptions\<close>

lemma distinct_EVENT_CODES: "distinct (map fst EVENT_CODES)"
  by (simp add: EVENT_CODES_def)

lemma getEventCodeDescription_Some:
  "getEventCodeDescription (Some k) =
     Inr (case map_of EVENT_CODES (toUpperCase k) of Some d \<Rightarrow> d | None \<Rightarrow> ''Unknown'')"
  by (simp add: getEventCodeDescription_def)

lemma toUpperCase_alphabet:
  "toUpperCase ''abcdefghijklmnopqrstuvwxyz'' = ''ABCDEFGHIJKLMNOPQRSTUVWXYZ''"
  by (simp add: toUpperCase_def toUpperCaseChar_def)

lemma toUpperCase_idem: "toUpperCase (toUpperCase s) = toUpperCase s"
  by (induction s) (simp_all add: toUpperCase_def toUpperCaseChar_def)

text \<open>
  C8. For every code string \<open>k\<close>, \<^verbatim>\<open>getEventCodeDescription\<close> returns a description and
  raises nothing; when the upper-case form of \<open>k\<close> is a key of the table the result is
  that key's entry, otherwise it is \<^verbatim>\<open>"Unknown"\<close>; two codes with the same upper-case
  form get the same result, so \<^verbatim>\<open>"iaf"\<close> resolves as \<^verbatim>\<open>"IAF"\<close> does, and \<^verbatim>\<open>"ZZZ"\<close>
  resolves to \<^verbatim>\<open>"Unknown"\<close>.
\<close>

theorem getEventCodeDescription_case_insensitive:
  "(\<exists>d. getEventCodeDescription (Some k) = Inr d) \<and>
   (\<forall>key d. (key, d) \<in> set EVENT_CODES \<and> toUpperCase k = key
      \<longrightarrow> getEventCodeDescription (Some k) = Inr d) \<and>
   (toUpperCase k \<notin> fst ` set EVENT_CODES
      \<longrightarrow> getEventCodeDescription (Some k) = Inr ''Unknown'') \<and>
   (toUpperCase k = toUpperCase k'
      \<longrightarrow> getEventCodeDescription (Some k) = getEventCodeDescription (Some k')) \<and>
   getEventCodeDescription (Some ''iaf'') = getEventCodeDescription (Some ''IAF'') \<and>
   getEventCodeDescription (Some ''IAF'') = Inr ''Receipt letter emailed'' \<and>
   getEventCodeDescription (Some ''ZZZ'') = Inr ''Unknown''"
proof (intro conjI allI impI)
  show "\<exists>d. getEventCodeDescription (Some k) = Inr d"
    by (simp add: getEventCodeDescription_Some)
next
  fix key d
  assume "(key, d) \<in> set EVENT_CODES \<and> toUpperCase k = key"
  then have "map_of EVENT_CODES (toUpperCase k) = Some d"
    using distinct_EVENT_CODES by (simp add: map_of_eq_Some_iff)
  then show "getEventCodeDescription (Some k) = Inr d"
    by (simp add: getEventCodeDescription_Some)
next
  assume "toUpperCase k \<notin> fst ` set EVENT_CODES"
  then have "map_of EVENT_CODES (toUpperCase k) = None"
    by (simp add: map_of_eq_None_iff)
  then show "getEventCodeDescription (Some k) = Inr ''Unknown''"
    by (simp add: getEventCodeDescription_Some)
next
  assume "toUpperCase k = toUpperCase k'"
  then show "getEventCodeDescription (Some k) = getEventCodeDescription (Some k')"
    by (simp add: getEventCodeDescription_Some)
next
  show "getEventCodeDescription (Some ''iaf'') = getEventCodeDescription (Some ''IAF'')"
    by (simp add: getEventCodeDescription_Some toUpperCase_def toUpperCaseChar_def)
next
  show "getEventCodeDescription (Some ''IAF'') = Inr ''Receipt letter emailed''"
    by (simp add: getEventCodeDescription_Some toUpperCase_def toUpperCaseChar_def EVENT_CODES_def)
next
  show "getEventCodeDescription (Some ''ZZZ'') = Inr ''Unknown''"
    by (simp add: getEventCodeDescription_Some toUpperCase_def toUpperCaseChar_def EVENT_CODES_def)
qed

theorem getEventCodeDescription_case_insensitive_witness:
  "((''H008'', ''Case Approved'') \<in> set EVENT_CODES \<and> toUpperCase ''h008'' = ''H008'') \<and>
   getEventCodeDescription (Some ''h008'') = Inr ''Case Approved'' \<and>
   toUpperCase ''h008'' = toUpperCase ''H008'' \<and>
   getEventCodeDescription (Some ''h008'') = getEventCodeDescription (Some ''H008'') \<and>
   toUpperCase ''zzz'' \<notin> fst ` set EVENT_CODES \<and>
   getEventCodeDescription (Some ''zzz'') = Inr ''Unknown''"
proof -
  have a: "(''H008'', ''Case Approved'') \<in> set EVENT_CODES \<and> toUpperCase ''h008'' = ''H008''"
    by (simp add: EVENT_CODES_def toUpperCase_def toUpperCaseChar_def)
  have b: "toUpperCase ''h008'' = toUpperCase ''H008''"
    by (simp add: toUpperCase_def toUpperCaseChar_def)
  have c: "toUpperCase ''zzz'' \<notin> fst ` set EVENT_CODES"
    by (simp add: EVENT_CODES_def toUpperCase_def toUpperCaseChar_def)
  show ?thesis
    using a b c
      getEventCodeDescription_case_insensitive [of "''h008''" "''H008''"]
      getEventCodeDescription_case_insensitive [of "''zzz''" "''zzz''"]
    by blast
qed

section \<open>Change detection\<close>

lemma fold_insert_indices:
  "fold (\<lambda>(i, _) s. insert i s) (enumerate n es) S = S \<union> {n..<n + length es}"
proof (induction es arbitrary: n S)
  case Nil
  then show ?case by simp
next
  case (Cons e es)
  have "insert n S \<union> {Suc n..<Suc n + length es} = S \<union> {n..<n + length (e # es)}"
    by auto
  with Cons show ?case by simp
qed

lemma fold_insert_unmatched:
  "fold (\<lambda>(i, event) s. if P event then insert i s else s) (enumerate n es) S =
     S \<union> {i. n \<le> i \<and> i < n + length es \<and> P (es ! (i - n))}"
proof (induction es arbitrary: n S)
  case Nil
  then show ?case by auto
next
  case (Cons e es)
  have step: "{i. n \<le> i \<and> i < n + length (e # es) \<and> P ((e # es) ! (i - n))} =
        (if P e then {n} else {}) \<union>
        {i. Suc n \<le> i \<and> i < Suc n + length es \<and> P (es ! (i - Suc n))}"
  proof (rule set_eqI)
    fix i
    show "i \<in> {i. n \<le> i \<and> i < n + length (e # es) \<and> P ((e # es) ! (i - n))} \<longleftrightarrow>
          i \<in> (if P e then {n} else {}) \<union>
            {i. Suc n \<le> i \<and> i < Suc n + length es \<and> P (es ! (i - Suc n))}"
    proof (cases "i = n")
      case True
      then show ?thesis by simp
    next
      case False
      then have "n \<le> i \<Longrightarrow> (e # es) ! (i - n) = es ! (i - Suc n)"
        by (simp add: nth_Cons')
      with False show ?thesis by auto
    qed
  qed
  have "fold (\<lambda>(i, event) s. if P event then insert i s else s) (enumerate n (e # es)) S =
        (if P e then insert n S else S) \<union>
        {i. Suc n \<le> i \<and> i < Suc n + length es \<and> P (es ! (i - Suc n))}"
    by (simp add: Cons.IH)
  also have "\<dots> = S \<union> {i. n \<le> i \<and> i < n + length (e # es) \<and> P ((e # es) ! (i - n))}"
    unfolding step by auto
  finally show ?case .
qed

lemma forEachCase_lookup:
  "forEachCase oldCases newCases ks hl = Inr hl' \<Longrightarrow>
     hl' k = (if k \<in> set ks
              then (case highlightCase oldCases newCases k of Inr h \<Rightarrow> Some h | Inl _ \<Rightarrow> None)
              else hl k)"
proof (induction ks arbitrary: hl)
  case Nil
  then show ?case by simp
next
  case (Cons k0 ks)
  from Cons.prems obtain h where
    h: "highlightCase oldCases newCases k0 = Inr h" and
    rest: "forEachCase oldCases newCases ks (hl(k0 \<mapsto> h)) = Inr hl'"
    by (auto split: sum.splits)
  from Cons.IH [OF rest] h show ?case by auto
qed

lemma forEachCase_returns:
  "(\<exists>hl'. forEachCase oldCases newCases ks hl = Inr hl') \<longleftrightarrow>
     (\<forall>k\<in>set ks. \<exists>h. highlightCase oldCases newCases k = Inr h)"
proof (induction ks arbitrary: hl)
  case Nil
  then show ?case by simp
next
  case (Cons k0 ks)
  show ?case
  proof (cases "highlightCase oldCases newCases k0")
    case (Inl e)
    then show ?thesis by auto
  next
    case (Inr h)
    then have "forEachCase oldCases newCases (k0 # ks) hl =
        forEachCase oldCases newCases ks (hl(k0 \<mapsto> h))"
      by simp
    with Inr Cons.IH show ?thesis by (simp del: forEachCase.simps fun_upd_apply)
  qed
qed

lemma forEachCase_error:
  "forEachCase oldCases newCases ks hl = Inl e \<Longrightarrow> e = TypeError"
proof (induction ks arbitrary: hl)
  case Nil
  then show ?case by simp
next
  case (Cons k0 ks)
  then show ?case
    by (auto simp: highlightCase_def Let_def split: sum.splits option.splits)
qed

lemma highlightCase_new:
  "map_of newCases k = Some c \<Longrightarrow> map_of oldCases k = None \<Longrightarrow> events c = Some es \<Longrightarrow>
     highlightCase oldCases newCases k =
       Inr \<lparr>isNew = True, updatedAtChanged = True, newEventIndices = {0..<length es}\<rparr>"
  by (simp add: highlightCase_def fold_insert_indices)

lemma highlightCase_new_missing:
  "map_of newCases k = Some c \<Longrightarrow> map_of oldCases k = None \<Longrightarrow> events c = None \<Longrightarrow>
     highlightCase oldCases newCases k = Inl TypeError"
  by (simp add: highlightCase_def)

lemma highlightCase_both:
  "map_of newCases k = Some nc \<Longrightarrow> map_of oldCases k = Some oc \<Longrightarrow>
     highlightCase oldCases newCases k =
       Inr \<lparr>isNew = False,
            updatedAtChanged =
              (updatedAtTimestamp oc \<noteq> updatedAtTimestamp nc \<or> updatedAt oc \<noteq> updatedAt nc),
            newEventIndices =
              {i. i < length (eventsOrEmpty nc) \<and>
                  eventKey (eventsOrEmpty nc ! i) \<notin> eventKey ` set (eventsOrEmpty oc)}\<rparr>"
  by (simp add: highlightCase_def Let_def fold_insert_unmatched)

lemma highlightCase_returns_iff:
  "(\<exists>h. highlightCase oldCases newCases k = Inr h) \<longleftrightarrow>
     (\<exists>c. map_of newCases k = Some c \<and> (map_of oldCases k = None \<longrightarrow> events c \<noteq> None))"
  by (auto simp: highlightCase_def Let_def split: option.splits)

lemma detectFieldHighlights_returns_iff:
  "(\<exists>hl. detectFieldHighlights oldCases newCases = Inr hl) \<longleftrightarrow>
     (\<forall>k c. map_of newCases k = Some c \<and> map_of oldCases k = None \<longrightarrow> events c \<noteq> None)"
proof -
  have keys: "k \<in> set (map fst newCases) \<longleftrightarrow> (\<exists>c. map_of newCases k = Some c)" for k
    by (metis map_of_eq_None_iff not_None_eq set_map)
  show ?thesis
    unfolding detectFieldHighlights_def forEachCase_returns highlightCase_returns_iff
    using keys by (metis option.inject)
qed

lemma detectFieldHighlights_lookup:
  assumes "detectFieldHighlights oldCases newCases = Inr hl"
    and "map_of newCases k = Some c"
    and "highlightCase oldCases newCases k = Inr h"
  shows "hl k = Some h"
proof -
  have "k \<in> set (map fst newCases)"
    using assms(2) by (metis map_of_eq_None_iff option.distinct(1) set_map)
  with forEachCase_lookup [OF assms(1) [unfolded detectFieldHighlights_def], of k] assms(3)
  show ?thesis by simp
qed





lemma map_of_fillAll: "map_of (fillAll cs) k = map_option fillEvents (map_of cs k)"
  by (simp add: fillAll_def map_of_map)

lemma eventsOrEmpty_fillEvents: "eventsOrEmpty (fillEvents c) = eventsOrEmpty c"
  by (simp add: fillEvents_def eventsOrEmpty_def)

lemma highlightCase_fillAll:
  assumes "map_of oldCases k = Some oc" and "map_of newCases k = Some nc"
  shows "highlightCase oldCases newCases k = highlightCase (fillAll oldCases) (fillAll newCases) k"
proof -
  have "highlightCase (fillAll oldCases) (fillAll newCases) k =
      Inr \<lparr>isNew = False,
           updatedAtChanged =
             (updatedAtTimestamp (fillEvents oc) \<noteq> updatedAtTimestamp (fillEvents nc) \<or>
              updatedAt (fillEvents oc) \<noteq> updatedAt (fillEvents nc)),
           newEventIndices =
             {i. i < length (eventsOrEmpty (fillEvents nc)) \<and>
                 eventKey (eventsOrEmpty (fillEvents nc) ! i)
                   \<notin> eventKey ` set (eventsOrEmpty (fillEvents oc))}\<rparr>"
    by (rule highlightCase_both) (simp_all add: map_of_fillAll assms)
  also have "\<dots> = highlightCase oldCases newCases k"
    unfolding highlightCase_both [OF assms(2) assms(1)] eventsOrEmpty_fillEvents
    by (simp add: fillEvents_def)
  finally show ?thesis by simp
qed

lemma detectFieldHighlights_TypeError:
  assumes "map_of oldCases k = None" and "map_of newCases k = Some nc" and "events nc = None"
  shows "detectFieldHighlights oldCases newCases = Inl TypeError"
proof (cases "detectFieldHighlights oldCases newCases")
  case (Inl e)
  then show ?thesis
    unfolding detectFieldHighlights_def using forEachCase_error by blast
next
  case (Inr hl)
  then have "\<forall>k c. map_of newCases k = Some c \<and> map_of oldCases k = None \<longrightarrow> events c \<noteq> None"
    using detectFieldHighlights_returns_iff [of oldCases newCases] by blast
  with assms show ?thesis by blast
qed

text \<open>
  C1. When every record that is in the new cases and not in the prior ones carries an
  events list, \<^verbatim>\<open>detectFieldHighlights\<close> returns, and for every such id the annotation
  has \<^verbatim>\<open>isNew\<close> and \<^verbatim>\<open>updatedAtChanged\<close> true and \<^verbatim>\<open>newEventIndices\<close> equal to the
  indices \<open>0, \<dots>, n - 1\<close> of that record's \<open>n\<close> events.
\<close>

theorem detectFieldHighlights_new_case:
  assumes "\<forall>k c. map_of newCases k = Some c \<and> map_of oldCases k = None \<longrightarrow> events c \<noteq> None"
  shows "\<exists>hl. detectFieldHighlights oldCases newCases = Inr hl \<and>
           (\<forall>k c. map_of newCases k = Some c \<and> map_of oldCases k = None \<longrightarrow>
              (\<exists>es. events c = Some es \<and>
                    hl k = Some \<lparr>isNew = True, updatedAtChanged = True,
                                 newEventIndices = {0..<length es}\<rparr>))"
proof -
  from assms obtain hl where hl: "detectFieldHighlights oldCases newCases = Inr hl"
    using detectFieldHighlights_returns_iff [of oldCases newCases] by blast
  have "\<exists>es. events c = Some es \<and>
          hl k = Some \<lparr>isNew = True, updatedAtChanged = True, newEventIndices = {0..<length es}\<rparr>"
    if new: "map_of newCases k = Some c" and old: "map_of oldCases k = None" for k c
  proof -
    from assms new old obtain es where es: "events c = Some es" by blast
    from detectFieldHighlights_lookup [OF hl new highlightCase_new [OF new old es]] es
    show ?thesis by simp
  qed
  with hl show ?thesis by blast
qed

theorem detectFieldHighlights_new_case_witness:
  "map_of laterCases ''IOE0000000002'' =
     Some (mkCase ''IOE0000000002'' (Some ''2024-02-01T09:00:00Z'') (Some ''2024-02-01T09:00:00Z'')
         (Some [evH008, evIAF])) \<and>
   map_of priorCases ''IOE0000000002'' = None \<and>
   events (mkCase ''IOE0000000002'' (Some ''2024-02-01T09:00:00Z'')
      (Some ''2024-02-01T09:00:00Z'') (Some [evH008, evIAF])) = Some [evH008, evIAF] \<and>
   (\<exists>hl. detectFieldHighlights priorCases laterCases = Inr hl \<and>
      hl ''IOE0000000002'' =
        Some \<lparr>isNew = True, updatedAtChanged = True, newEventIndices = {0, 1}\<rparr>)"
proof -
  have pre: "\<forall>k c. map_of laterCases k = Some c \<and> map_of priorCases k = None \<longrightarrow> events c \<noteq> None"
  proof (intro allI impI)
    fix k c
    assume "map_of laterCases k = Some c \<and> map_of priorCases k = None"
    then have "\<exists>num ua uts es. c = mkCase num ua uts (Some es)"
      unfolding laterCases_def by (auto split: if_splits)
    then show "events c \<noteq> None"
      by (auto simp: mkCase_def)
  qed
  have new: "map_of laterCases ''IOE0000000002'' =
     Some (mkCase ''IOE0000000002'' (Some ''2024-02-01T09:00:00Z'') (Some ''2024-02-01T09:00:00Z'')
         (Some [evH008, evIAF]))"
    by (simp add: laterCases_def)
  have old: "map_of priorCases ''IOE0000000002'' = None"
    by (simp add: priorCases_def)
  have ev: "events (mkCase ''IOE0000000002'' (Some ''2024-02-01T09:00:00Z'')
      (Some ''2024-02-01T09:00:00Z'') (Some [evH008, evIAF])) = Some [evH008, evIAF]"
    by (simp add: mkCase_def)
  have range: "{0..<length [evH008, evIAF]} = {0, 1}"
    by auto
  from detectFieldHighlights_new_case [OF pre] obtain hl where
    hl: "detectFieldHighlights priorCases laterCases = Inr hl" and
    all: "\<forall>k c. map_of laterCases k = Some c \<and> map_of priorCases k = None \<longrightarrow>
              (\<exists>es. events c = Some es \<and>
                    hl k = Some \<lparr>isNew = True, updatedAtChanged = True,
                                 newEventIndices = {0..<length es}\<rparr>)"
    by blast
  from all [THEN spec, THEN spec, THEN mp, OF conjI [OF new old]] ev range
  have "hl ''IOE0000000002'' =
        Some \<lparr>isNew = True, updatedAtChanged = True, newEventIndices = {0, 1}\<rparr>"
    by simp
  with new old ev hl show ?thesis by blast
qed






text \<open>
  C10. \<^verbatim>\<open>detectFieldHighlights\<close> returns exactly when every record that is in the new
  cases and not in the prior ones carries an events list. For an id in both, the callback
  always returns, and a missing events list on either record gives what the empty list
  gives. For an id only in the new cases whose record has no events list, the callback
  and with it the whole call raise a TypeError.
\<close>

theorem detectFieldHighlights_missing_events:
  "((\<exists>hl. detectFieldHighlights oldCases newCases = Inr hl) \<longleftrightarrow>
      (\<forall>k c. map_of newCases k = Some c \<and> map_of oldCases k = None \<longrightarrow> events c \<noteq> None)) \<and>
   (map_of oldCases k = Some oc \<and> map_of newCases k = Some nc \<longrightarrow>
      (\<exists>h. highlightCase oldCases newCases k = Inr h) \<and>
      highlightCase oldCases newCases k =
        highlightCase (fillAll oldCases) (fillAll newCases) k) \<and>
   (map_of oldCases k = None \<and> map_of newCases k = Some nc \<and> events nc = None \<longrightarrow>
      highlightCase oldCases newCases k = Inl TypeError \<and>
      detectFieldHighlights oldCases newCases = Inl TypeError)"
proof (intro conjI impI)
  show "(\<exists>hl. detectFieldHighlights oldCases newCases = Inr hl) \<longleftrightarrow>
      (\<forall>k c. map_of newCases k = Some c \<and> map_of oldCases k = None \<longrightarrow> events c \<noteq> None)"
    by (rule detectFieldHighlights_returns_iff)
next
  assume "map_of oldCases k = Some oc \<and> map_of newCases k = Some nc"
  then show "\<exists>h. highlightCase oldCases newCases k = Inr h"
    using highlightCase_both by blast
next
  assume "map_of oldCases k = Some oc \<and> map_of newCases k = Some nc"
  then show "highlightCase oldCases newCases k =
      highlightCase (fillAll oldCases) (fillAll newCases) k"
    using highlightCase_fillAll by blast
next
  assume "map_of oldCases k = None \<and> map_of newCases k = Some nc \<and> events nc = None"
  then show "highlightCase oldCases newCases k = Inl TypeError"
    using highlightCase_new_missing by blast
next
  assume "map_of oldCases k = None \<and> map_of newCases k = Some nc \<and> events nc = None"
  then show "detectFieldHighlights oldCases newCases = Inl TypeError"
    using detectFieldHighlights_TypeError by blast
qed

theorem detectFieldHighlights_missing_events_witness:
  "(\<exists>hl. detectFieldHighlights priorCases missingEventsBoth = Inr hl) \<and>
   (map_of priorCases ''IOE0000000001'' =
      Some (mkCase ''IOE0000000001'' (Some ''2024-01-05T09:00:00Z'')
        (Some ''2024-01-05T09:00:00Z'') (Some [evIAF])) \<and>
    map_of missingEventsBoth ''IOE0000000001'' =
      Some (mkCase ''IOE0000000001'' None None None)) \<and>
   highlightCase priorCases missingEventsBoth ''IOE0000000001'' =
     highlightCase (fillAll priorCases) (fillAll missingEventsBoth) ''IOE0000000001'' \<and>
   highlightCase priorCases missingEventsBoth ''IOE0000000001'' =
     Inr \<lparr>isNew = False, updatedAtChanged = True, newEventIndices = {}\<rparr> \<and>
   (map_of priorCases ''IOE0000000003'' = None \<and>
    map_of missingEventsNew ''IOE0000000003'' = Some (mkCase ''IOE0000000003'' None None None) \<and>
    events (mkCase ''IOE0000000003'' None None None :: unit caseRecord) = None) \<and>
   detectFieldHighlights priorCases missingEventsNew = Inl TypeError"
proof -
  have pre: "\<forall>k c. map_of missingEventsBoth k = Some c \<and> map_of priorCases k = None
      \<longrightarrow> events c \<noteq> None"
    by (simp add: missingEventsBoth_def priorCases_def)
  have both: "map_of priorCases ''IOE0000000001'' =
      Some (mkCase ''IOE0000000001'' (Some ''2024-01-05T09:00:00Z'')
        (Some ''2024-01-05T09:00:00Z'') (Some [evIAF])) \<and>
    map_of missingEventsBoth ''IOE0000000001'' =
      Some (mkCase ''IOE0000000001'' None None None)"
    by (simp add: missingEventsBoth_def priorCases_def)
  have only_new: "map_of priorCases ''IOE0000000003'' = None \<and>
    map_of missingEventsNew ''IOE0000000003'' = Some (mkCase ''IOE0000000003'' None None None) \<and>
    events (mkCase ''IOE0000000003'' None None None :: unit caseRecord) = None"
    by (simp add: missingEventsNew_def priorCases_def mkCase_def)
  have val: "highlightCase priorCases missingEventsBoth ''IOE0000000001'' =
     Inr \<lparr>isNew = False, updatedAtChanged = True, newEventIndices = {}\<rparr>"
    by (simp add: highlightCase_def eventsOrEmpty_def missingEventsBoth_def priorCases_def
        mkCase_def)
  from pre both only_new val
    detectFieldHighlights_missing_events
      [where oldCases = priorCases and newCases = missingEventsBoth
         and k = "''IOE0000000001''"
         and oc = "mkCase ''IOE0000000001'' (Some ''2024-01-05T09:00:00Z'')
                     (Some ''2024-01-05T09:00:00Z'') (Some [evIAF])"
         and nc = "mkCase ''IOE0000000001'' None None None"]
    detectFieldHighlights_missing_events
      [where oldCases = priorCases and newCases = missingEventsNew
         and k = "''IOE0000000003''"
         and nc = "mkCase ''IOE0000000003'' None None None"]
  show ?thesis by blast
qed

section \<open>Normalisation\<close>

lemma set_insertBy: "set (insertBy cmp x xs) = insert x (set xs)"
  by (induction xs) auto

lemma mset_insertBy: "mset (insertBy cmp x xs) = add_mset x (mset xs)"
  by (induction xs) auto

lemma mset_array_sort: "mset (array_sort cmp xs) = mset xs"
  by (induction xs) (simp_all add: array_sort_def mset_insertBy)

lemma set_array_sort: "set (array_sort cmp xs) = set xs"
  by (metis mset_array_sort set_mset_mset)

lemma compareEvents_le:
  "validEvent p a \<Longrightarrow> validEvent p b \<Longrightarrow> compareEvents p a b \<le> 0 \<longleftrightarrow> timestampGe p a b"
  by (auto simp: validEvent_def compareEvents_def timestampGe_def)

lemma compareEvents_gt:
  "validEvent p a \<Longrightarrow> validEvent p b \<Longrightarrow> \<not> compareEvents p a b \<le> 0 \<Longrightarrow> timestampGe p b a"
  by (auto simp: validEvent_def compareEvents_def timestampGe_def)

lemma timestampGe_trans:
  "timestampGe p a b \<Longrightarrow> timestampGe p b c \<Longrightarrow> timestampGe p a c"
  by (auto simp: timestampGe_def split: option.splits)

lemma sorted_insertBy:
  assumes "validEvent p x" and "\<forall>e\<in>set xs. validEvent p e"
    and "sorted_wrt (timestampGe p) xs"
  shows "sorted_wrt (timestampGe p) (insertBy (compareEvents p) x xs)"
  using assms
proof (induction xs)
  case Nil
  then show ?case by simp
next
  case (Cons y ys)
  show ?case
  proof (cases "compareEvents p x y \<le> 0")
    case True
    with Cons.prems have xy: "timestampGe p x y"
      by (simp add: compareEvents_le)
    from Cons.prems have "\<forall>z\<in>set ys. timestampGe p y z" by simp
    with xy have "\<forall>z\<in>set ys. timestampGe p x z"
      using timestampGe_trans by blast
    with True xy Cons.prems show ?thesis by simp
  next
    case False
    with Cons.prems have yx: "timestampGe p y x"
      by (simp add: compareEvents_gt)
    from Cons.prems have "sorted_wrt (timestampGe p) (insertBy (compareEvents p) x ys)"
      by (simp add: Cons.IH)
    with False yx Cons.prems show ?thesis
      by (simp add: set_insertBy)
  qed
qed

lemma sorted_array_sort:
  "\<forall>e\<in>set xs. validEvent p e \<Longrightarrow> sorted_wrt (timestampGe p) (array_sort (compareEvents p) xs)"
proof (induction xs)
  case Nil
  then show ?case by (simp add: array_sort_def)
next
  case (Cons x xs)
  then have "sorted_wrt (timestampGe p) (insertBy (compareEvents p) x (array_sort (compareEvents p) xs))"
    by (intro sorted_insertBy) (simp_all add: set_array_sort)
  then show ?case by (simp add: array_sort_def)
qed

lemma array_map_normalizeEvent:
  "array_map normalizeEvent raws = Inr es \<Longrightarrow>
     map event.updatedAtTimestamp es = map rawEvent.updatedAtTimestamp raws"
proof (induction raws arbitrary: es)
  case Nil
  then show ?case by simp
next
  case (Cons r raws)
  then show ?case
    by (auto simp: normalizeEvent_def split: sum.splits)
qed

lemma fetchCaseData_events:
  assumes "fetchCaseData parseDate now num (Inr sd) docFetch = Some r"
  shows "\<exists>mapped. array_map normalizeEvent (rawEvents sd) = Inr mapped \<and>
           events r = Some (array_sort (compareEvents parseDate) mapped)"
  using assms
  by (auto simp: fetchCaseData_def rawEvents_def Let_def split: sum.splits)

lemma fetchCaseData_example:
  "fetchCaseData exampleDates now ''IOE0000000001'' (Inr examplePayload) (Inr ()) =
     Some (exampleRecord now)"
  by (simp add: fetchCaseData_def examplePayload_def exampleRecord_def normalizeEvent_def
      getEventCodeDescription_def toUpperCase_def toUpperCaseChar_def EVENT_CODES_def
      array_sort_def compareEvents_def dateMs_def exampleDates_def
      evIAF_def evH008_def evFTA0_def)

text \<open>
  C4, as stated, fails. A payload whose second event has no timestamp still gives a
  record; \<^verbatim>\<open>new Date(undefined)\<close> is an invalid date, every comparison with it is NaN
  and counts as 0, and the events stay in the order of the payload: the event of January,
  the one without timestamp, the event of February. Neither adjacent pair is in
  descending order of time (a comparison with an invalid date is false, in whatever order
  an engine leaves the three), and the event of January stands before the more recent one
  of February.
\<close>

theorem fetchCaseData_missing_timestamp_counterexample:
  "map_option events
     (fetchCaseData exampleDates ''2024-03-01T10:00:00.000Z'' ''IOE0000000001''
        (Inr payloadMissingTimestamp) (Inr ())) = Some (Some [evIAF, evUndated, evH008]) \<and>
   \<not> timestampGe exampleDates ([evIAF, evUndated, evH008] ! 0) ([evIAF, evUndated, evH008] ! 1) \<and>
   \<not> timestampGe exampleDates ([evIAF, evUndated, evH008] ! 1) ([evIAF, evUndated, evH008] ! 2) \<and>
   \<not> timestampGe exampleDates evIAF evH008"
  by (simp add: fetchCaseData_def payloadMissingTimestamp_def normalizeEvent_def
      getEventCodeDescription_def toUpperCase_def toUpperCaseChar_def EVENT_CODES_def
      array_sort_def compareEvents_def timestampGe_def dateMs_def exampleDates_def
      evIAF_def evH008_def evUndated_def)

text \<open>
  C4, amended. When \<^verbatim>\<open>fetchCaseData\<close> produces a record from a payload whose events
  all carry a timestamp that reads as a date, the record's events are the payload's
  events (the same timestamps, each as often), whatever their order in the payload, and
  they are in descending order of time: every event is at least as recent as each later
  one, and so as the next one.
\<close>

theorem fetchCaseData_events_descending:
  assumes "fetchCaseData parseDate now num (Inr sd) docFetch = Some r"
    and "\<forall>e\<in>set (rawEvents sd). validTimestamp parseDate e"
  shows "\<exists>es. events r = Some es \<and>
           mset (map event.updatedAtTimestamp es) =
             mset (map rawEvent.updatedAtTimestamp (rawEvents sd)) \<and>
           sorted_wrt (timestampGe parseDate) es \<and>
           (\<forall>i. Suc i < length es \<longrightarrow> timestampGe parseDate (es ! i) (es ! Suc i))"
proof -
  from fetchCaseData_events [OF assms(1)] obtain mapped where
    mapped: "array_map normalizeEvent (rawEvents sd) = Inr mapped" and
    es: "events r = Some (array_sort (compareEvents parseDate) mapped)"
    by blast
  let ?es = "array_sort (compareEvents parseDate) mapped"
  note ts = array_map_normalizeEvent [OF mapped]
  have "mset (map event.updatedAtTimestamp ?es) = mset (map event.updatedAtTimestamp mapped)"
    by (metis mset_array_sort mset_map)
  with ts have perm: "mset (map event.updatedAtTimestamp ?es) =
      mset (map rawEvent.updatedAtTimestamp (rawEvents sd))"
    by simp
  have "\<forall>t\<in>set (map rawEvent.updatedAtTimestamp (rawEvents sd)). dateMs parseDate t \<noteq> None"
    using assms(2) by (simp add: validTimestamp_def)
  with ts have "\<forall>t\<in>set (map event.updatedAtTimestamp mapped). dateMs parseDate t \<noteq> None"
    by simp
  then have valid: "\<forall>e\<in>set mapped. validEvent parseDate e"
    by (simp add: validEvent_def)
  have sorted: "sorted_wrt (timestampGe parseDate) ?es"
    by (rule sorted_array_sort [OF valid])
  then have adj: "\<forall>i. Suc i < length ?es \<longrightarrow> timestampGe parseDate (?es ! i) (?es ! Suc i)"
    by (simp add: sorted_wrt_iff_nth_less)
  from es perm sorted adj show ?thesis by blast
qed

theorem fetchCaseData_events_descending_witness:
  "fetchCaseData exampleDates ''2024-03-01T10:00:00.000Z'' ''IOE0000000001''
     (Inr examplePayload) (Inr ()) = Some (exampleRecord ''2024-03-01T10:00:00.000Z'') \<and>
   list_all (validTimestamp exampleDates) (rawEvents examplePayload) \<and>
   events (exampleRecord ''2024-03-01T10:00:00.000Z'') = Some [evH008, evFTA0, evIAF] \<and>
   sorted_wrt (timestampGe exampleDates) [evH008, evFTA0, evIAF] \<and>
   timestampGe exampleDates evH008 evFTA0 \<and>
   timestampGe exampleDates evFTA0 evIAF"
proof -
  let ?now = "''2024-03-01T10:00:00.000Z''"
  have fetch: "fetchCaseData exampleDates ?now ''IOE0000000001''
     (Inr examplePayload) (Inr ()) = Some (exampleRecord ?now)"
    by (rule fetchCaseData_example)
  have valid: "list_all (validTimestamp exampleDates) (rawEvents examplePayload)"
    by (simp add: rawEvents_def examplePayload_def validTimestamp_def dateMs_def exampleDates_def)
  then have valid': "\<forall>e\<in>set (rawEvents examplePayload). validTimestamp exampleDates e"
    by (simp add: list_all_iff)
  have ev: "events (exampleRecord ?now) = Some [evH008, evFTA0, evIAF]"
    by (simp add: exampleRecord_def)
  from fetchCaseData_events_descending [OF fetch valid'] ev
  have sorted: "sorted_wrt (timestampGe exampleDates) [evH008, evFTA0, evIAF]"
    by auto
  then have "timestampGe exampleDates evH008 evFTA0 \<and> timestampGe exampleDates evFTA0 evIAF"
    by simp
  with fetch valid ev sorted show ?thesis by blast
qed

text \<open>
  C9, as stated, fails: the record holds \<^verbatim>\<open>lastFetched\<close>, the clock reading of the call,
  so the same payload fetched at two different readings gives two different records.
\<close>

theorem fetchCaseData_clock_counterexample:
  "fetchCaseData exampleDates ''2024-03-01T10:00:00.000Z'' ''IOE0000000001''
     (Inr examplePayload) (Inr ()) \<noteq>
   fetchCaseData exampleDates ''2024-03-01T10:00:05.000Z'' ''IOE0000000001''
     (Inr examplePayload) (Inr ())"
  by (simp add: fetchCaseData_example exampleRecord_def)

text \<open>
  C9, amended. Two runs of \<^verbatim>\<open>fetchCaseData\<close> on the same payload, at any two clock
  readings, both fail or both give a record, and the two records are equal in every field
  but \<^verbatim>\<open>lastFetched\<close>, the events and their order included; \<^verbatim>\<open>lastFetched\<close> is the
  clock reading of the run.
\<close>

theorem fetchCaseData_deterministic_up_to_clock:
  "map_option (\<lambda>r. r\<lparr>lastFetched := t\<rparr>)
     (fetchCaseData parseDate now1 num statusFetch docFetch) =
   map_option (\<lambda>r. r\<lparr>lastFetched := t\<rparr>)
     (fetchCaseData parseDate now2 num statusFetch docFetch) \<and>
   map_option events (fetchCaseData parseDate now1 num statusFetch docFetch) =
   map_option events (fetchCaseData parseDate now2 num statusFetch docFetch) \<and>
   map_option lastFetched (fetchCaseData parseDate now1 num statusFetch docFetch) =
   map_option (\<lambda>r. now1) (fetchCaseData parseDate now1 num statusFetch docFetch)"
  by (simp add: fetchCaseData_def Let_def split: sum.splits)

theorem fetchCaseData_deterministic_up_to_clock_witness:
  "map_option (\<lambda>r. r\<lparr>lastFetched := []\<rparr>)
     (fetchCaseData exampleDates ''2024-03-01T10:00:00.000Z'' ''IOE0000000001''
        (Inr examplePayload) (Inr ())) =
   map_option (\<lambda>r. r\<lparr>lastFetched := []\<rparr>)
     (fetchCaseData exampleDates ''2024-03-01T10:00:05.000Z'' ''IOE0000000001''
        (Inr examplePayload) (Inr ())) \<and>
   map_option events
     (fetchCaseData exampleDates ''2024-03-01T10:00:05.000Z'' ''IOE0000000001''
        (Inr examplePayload) (Inr ())) = Some (Some [evH008, evFTA0, evIAF]) \<and>
   map_option lastFetched
     (fetchCaseData exampleDates ''2024-03-01T10:00:00.000Z'' ''IOE0000000001''
        (Inr examplePayload) (Inr ())) = Some ''2024-03-01T10:00:00.000Z''"
  using fetchCaseData_deterministic_up_to_clock
    [of "[]" exampleDates "''2024-03-01T10:00:00.000Z''" "''IOE0000000001''"
        "Inr examplePayload" "Inr ()" "''2024-03-01T10:00:05.000Z''"]
  by (simp add: fetchCaseData_example exampleRecord_def)

section \<open>History store\<close>

lemma keys_distinct: "HISTORY_KEY \<noteq> STORAGE_KEY"
  by (simp add: HISTORY_KEY_def STORAGE_KEY_def)

lemma getHistory_snd: "snd (getHistory st) = st"
  by (simp add: getHistory_def)

lemma getHistory_pair: "getHistory st = (fst (getHistory st), st)"
  by (simp add: getHistory_def)

lemma getLastSavedCases_snd: "snd (getLastSavedCases st) = st"
  by (simp add: getLastSavedCases_def getHistory_def split: sum.splits option.splits json.splits)

lemma getHistory_setItem:
  "fst (getHistory (setItem STORAGE_KEY v (setItem HISTORY_KEY (JSON_stringify j) st))) = Inr j"
  using keys_distinct
  by (simp add: getHistory_def getItem_def setItem_def JSON_stringify_def JSON_parse_def)

lemma saveToHistory_appends:
  assumes "fst (getHistory st) = Inr (JHistory h)"
  shows "saveToHistory t1 t2 S st =
     (Inr (),
      setItem STORAGE_KEY
        (JSON_stringify (JLegacy \<lparr>legacySnapshot.cases = Some S, lastFetch = t2\<rparr>))
        (setItem HISTORY_KEY
           (JSON_stringify (JHistory (h @ [\<lparr>snapshot.cases = S, savedAt = t1\<rparr>]))) st))"
proof -
  from assms have "getHistory st = (Inr (JHistory h), st)"
    using getHistory_pair [of st] by simp
  then show ?thesis by (simp add: saveToHistory_def)
qed

lemma saveToHistory_returns:
  assumes "saveToHistory t1 t2 S st = (Inr u, st')"
  shows "\<exists>h. fst (getHistory st) = Inr (JHistory h)"
proof (cases "fst (getHistory st)")
  case (Inl e)
  then have "getHistory st = (Inl e, st)" using getHistory_pair [of st] by simp
  with assms show ?thesis by (simp add: saveToHistory_def)
next
  case (Inr j)
  then have g: "getHistory st = (Inr j, st)" using getHistory_pair [of st] by simp
  show ?thesis
  proof (cases j)
    case (JHistory h)
    with Inr show ?thesis by simp
  next
    case (JLegacy l)
    with g assms show ?thesis by (simp add: saveToHistory_def)
  qed
qed

lemma getLastSavedCases_nonempty:
  assumes "fst (getHistory st) = Inr (JHistory (h @ [s]))"
  shows "getLastSavedCases st = (Inr (snapshot.cases s), st)"
proof -
  from assms have "getHistory st = (Inr (JHistory (h @ [s])), st)"
    using getHistory_pair [of st] by simp
  then show ?thesis by (simp add: getLastSavedCases_def)
qed

lemma saveToHistory_latest:
  assumes "saveToHistory t1 t2 S st = (Inr u, st')"
  shows "getLastSavedCases st' = (Inr S, st')"
proof -
  from saveToHistory_returns [OF assms] obtain h where h: "fst (getHistory st) = Inr (JHistory h)"
    by blast
  from assms saveToHistory_appends [OF h, of t1 t2 S]
  have st': "st' = setItem STORAGE_KEY
        (JSON_stringify (JLegacy \<lparr>legacySnapshot.cases = Some S, lastFetch = t2\<rparr>))
        (setItem HISTORY_KEY
           (JSON_stringify (JHistory (h @ [\<lparr>snapshot.cases = S, savedAt = t1\<rparr>]))) st)"
    by simp
  have "fst (getHistory st') = Inr (JHistory (h @ [\<lparr>snapshot.cases = S, savedAt = t1\<rparr>]))"
    unfolding st' by (rule getHistory_setItem)
  from getLastSavedCases_nonempty [OF this] show ?thesis by simp
qed

lemma historyLength_iff: "historyLength st = Some n \<longleftrightarrow> (\<exists>h. fst (getHistory st) = Inr (JHistory h) \<and> length h = n)"
  by (auto simp: historyLength_def split: sum.splits json.splits)

lemma saveToHistory_length:
  assumes "historyLength st = Some n"
  shows "\<exists>st'. saveToHistory t1 t2 S st = (Inr (), st') \<and> historyLength st' = Some (Suc n)"
proof -
  from assms obtain h where h: "fst (getHistory st) = Inr (JHistory h)" and n: "length h = n"
    by (auto simp: historyLength_iff)
  let ?st' = "setItem STORAGE_KEY
        (JSON_stringify (JLegacy \<lparr>legacySnapshot.cases = Some S, lastFetch = t2\<rparr>))
        (setItem HISTORY_KEY
           (JSON_stringify (JHistory (h @ [\<lparr>snapshot.cases = S, savedAt = t1\<rparr>]))) st)"
  have "historyLength ?st' = Some (Suc n)"
    unfolding historyLength_iff using getHistory_setItem n by fastforce
  with saveToHistory_appends [OF h] show ?thesis by blast
qed

lemma saveAll_length:
  "historyLength st = Some n \<Longrightarrow>
     \<exists>st'. saveAll xs st = (Inr (), st') \<and> historyLength st' = Some (n + length xs)"
proof (induction xs arbitrary: st n)
  case Nil
  then show ?case by simp
next
  case (Cons x xs)
  obtain t1 t2 S where x: "x = (t1, t2, S)" by (cases x) auto
  from saveToHistory_length [OF Cons.prems, of t1 t2 S] obtain st1 where
    s1: "saveToHistory t1 t2 S st = (Inr (), st1)" and l1: "historyLength st1 = Some (Suc n)"
    by blast
  from Cons.IH [OF l1] obtain st' where
    "saveAll xs st1 = (Inr (), st')" and "historyLength st' = Some (Suc n + length xs)"
    by blast
  with x s1 show ?case by simp
qed

lemma getLastSavedCases_cleared:
  "getLastSavedCases (clearAllHistory st) = (Inr [], clearAllHistory st)"
  using keys_distinct
  by (simp add: getLastSavedCases_def getHistory_def clearAllHistory_def removeItem_def
      getItem_def JSON_stringify_def JSON_parse_def)

lemma historyLength_cleared: "historyLength (clearAllHistory st) = Some 0"
  using keys_distinct
  by (simp add: historyLength_def getHistory_def clearAllHistory_def removeItem_def
      getItem_def JSON_stringify_def JSON_parse_def)

lemma getHistory_legacyOnly: "fst (getHistory legacyOnlyStorage) = Inr (JHistory [])"
  using keys_distinct
  by (simp add: getHistory_def getItem_def legacyOnlyStorage_def JSON_stringify_def JSON_parse_def)

lemma getItem_legacyOnly:
  "getItem STORAGE_KEY legacyOnlyStorage =
     Some (JSON_stringify
       (JLegacy \<lparr>legacySnapshot.cases = Some priorCases,
                 lastFetch = ''2024-01-06T08:00:00.000Z''\<rparr>))"
  by (simp add: getItem_def legacyOnlyStorage_def)

text \<open>
  C5. In every storage state, when \<^verbatim>\<open>saveToHistory\<close> of the cases \<open>S\<close> returns,
  \<^verbatim>\<open>getLastSavedCases\<close> returns exactly \<open>S\<close>; it does return whenever the stored
  history reads as an array, and the history then is the old one with one snapshot of
  \<open>S\<close> at its end. From a state whose history is empty, any number of consecutive calls
  all return and leave a history of that length. After \<^verbatim>\<open>clearAllHistory\<close>, in every
  state, with or without a single-snapshot entry before, \<^verbatim>\<open>getLastSavedCases\<close> returns
  the empty object and the history has length 0.
\<close>

theorem history_append_latest_clear:
  "(saveToHistory t1 t2 S st = (Inr (), st') \<longrightarrow> getLastSavedCases st' = (Inr S, st')) \<and>
   (fst (getHistory st) = Inr (JHistory h) \<longrightarrow>
      (\<exists>st''. saveToHistory t1 t2 S st = (Inr (), st'') \<and>
         fst (getHistory st'') = Inr (JHistory (h @ [\<lparr>snapshot.cases = S, savedAt = t1\<rparr>])) \<and>
         getLastSavedCases st'' = (Inr S, st''))) \<and>
   (historyLength st = Some 0 \<longrightarrow>
      (\<exists>st''. saveAll xs st = (Inr (), st'') \<and> historyLength st'' = Some (length xs))) \<and>
   getLastSavedCases (clearAllHistory st) = (Inr [], clearAllHistory st) \<and>
   historyLength (clearAllHistory st) = Some 0"
proof (intro conjI impI)
  assume "saveToHistory t1 t2 S st = (Inr (), st')"
  then show "getLastSavedCases st' = (Inr S, st')" by (rule saveToHistory_latest)
next
  assume h: "fst (getHistory st) = Inr (JHistory h)"
  let ?st = "setItem STORAGE_KEY
        (JSON_stringify (JLegacy \<lparr>legacySnapshot.cases = Some S, lastFetch = t2\<rparr>))
        (setItem HISTORY_KEY
           (JSON_stringify (JHistory (h @ [\<lparr>snapshot.cases = S, savedAt = t1\<rparr>]))) st)"
  have save: "saveToHistory t1 t2 S st = (Inr (), ?st)" by (rule saveToHistory_appends [OF h])
  have hist: "fst (getHistory ?st) = Inr (JHistory (h @ [\<lparr>snapshot.cases = S, savedAt = t1\<rparr>]))"
    by (rule getHistory_setItem)
  have "getLastSavedCases ?st = (Inr S, ?st)" by (rule saveToHistory_latest [OF save])
  with save hist show "\<exists>st''. saveToHistory t1 t2 S st = (Inr (), st'') \<and>
         fst (getHistory st'') = Inr (JHistory (h @ [\<lparr>snapshot.cases = S, savedAt = t1\<rparr>])) \<and>
         getLastSavedCases st'' = (Inr S, st'')"
    by blast
next
  assume "historyLength st = Some 0"
  from saveAll_length [OF this, of xs]
  show "\<exists>st''. saveAll xs st = (Inr (), st'') \<and> historyLength st'' = Some (length xs)"
    by simp
next
  show "getLastSavedCases (clearAllHistory st) = (Inr [], clearAllHistory st)"
    by (rule getLastSavedCases_cleared)
next
  show "historyLength (clearAllHistory st) = Some 0"
    by (rule historyLength_cleared)
qed

theorem history_append_latest_clear_witness:
  "fst (getHistory legacyOnlyStorage) = Inr (JHistory []) \<and>
   historyLength legacyOnlyStorage = Some 0 \<and>
   (\<exists>st'. saveToHistory ''2024-02-11T08:00:00.000Z'' ''2024-02-11T08:00:00.001Z'' laterCases
             legacyOnlyStorage = (Inr (), st') \<and>
          fst (getHistory st') =
            Inr (JHistory [\<lparr>snapshot.cases = laterCases,
                             savedAt = ''2024-02-11T08:00:00.000Z''\<rparr>]) \<and>
          getLastSavedCases st' = (Inr laterCases, st')) \<and>
   (\<exists>st'. saveAll [(''2024-01-06T08:00:00.000Z'', ''2024-01-06T08:00:00.001Z'', priorCases),
                   (''2024-02-11T08:00:00.000Z'', ''2024-02-11T08:00:00.001Z'', laterCases)]
             legacyOnlyStorage = (Inr (), st') \<and>
          historyLength st' = Some 2) \<and>
   getLastSavedCases (clearAllHistory legacyOnlyStorage) =
     (Inr [], clearAllHistory legacyOnlyStorage) \<and>
   historyLength (clearAllHistory legacyOnlyStorage) = Some 0"
proof -
  have empty: "fst (getHistory legacyOnlyStorage) = Inr (JHistory [])"
    by (rule getHistory_legacyOnly)
  then have zero: "historyLength legacyOnlyStorage = Some 0"
    by (simp add: historyLength_def)
  note inst = history_append_latest_clear
    [where st = legacyOnlyStorage and h = "[]" and S = laterCases
       and ?t1.0 = "''2024-02-11T08:00:00.000Z''" and ?t2.0 = "''2024-02-11T08:00:00.001Z''"
       and xs = "[(''2024-01-06T08:00:00.000Z'', ''2024-01-06T08:00:00.001Z'', priorCases),
                  (''2024-02-11T08:00:00.000Z'', ''2024-02-11T08:00:00.001Z'', laterCases)]"]
  from inst [THEN conjunct2, THEN conjunct1, THEN mp, OF empty] obtain st1 where
    save: "saveToHistory ''2024-02-11T08:00:00.000Z'' ''2024-02-11T08:00:00.001Z'' laterCases
             legacyOnlyStorage = (Inr (), st1)" and
    hist: "fst (getHistory st1) =
            Inr (JHistory [\<lparr>snapshot.cases = laterCases,
                             savedAt = ''2024-02-11T08:00:00.000Z''\<rparr>])"
    by auto
  from inst [where st' = st1, THEN conjunct1, THEN mp, OF save]
  have latest: "getLastSavedCases st1 = (Inr laterCases, st1)" .
  from inst [THEN conjunct2, THEN conjunct2, THEN conjunct1, THEN mp, OF zero]
  have twice: "\<exists>st'. saveAll
       [(''2024-01-06T08:00:00.000Z'', ''2024-01-06T08:00:00.001Z'', priorCases),
        (''2024-02-11T08:00:00.000Z'', ''2024-02-11T08:00:00.001Z'', laterCases)]
       legacyOnlyStorage = (Inr (), st') \<and> historyLength st' = Some 2"
    by (simp del: saveAll.simps add: numeral_2_eq_2)
  note cleared = inst [THEN conjunct2, THEN conjunct2, THEN conjunct2]
  from empty zero save hist latest twice cleared show ?thesis by blast
qed

text \<open>
  C6. When the history is empty and the single-snapshot entry of the earlier format holds
  a record, \<^verbatim>\<open>getLastSavedCases\<close> returns that record's cases (the empty object when it
  has none) and leaves the storage as it was; in every state \<^verbatim>\<open>getLastSavedCases\<close> and
  \<^verbatim>\<open>getHistory\<close> leave the storage as it was.
\<close>

theorem getLastSavedCases_legacy_read_only:
  "(fst (getHistory st) = Inr (JHistory []) \<and>
    getItem STORAGE_KEY st = Some (JSON_stringify (JLegacy l)) \<longrightarrow>
      getLastSavedCases st =
        (Inr (case legacySnapshot.cases l of Some c \<Rightarrow> c | None \<Rightarrow> []), st)) \<and>
   snd (getLastSavedCases st) = st \<and>
   snd (getHistory st) = st"
proof (intro conjI impI)
  assume a: "fst (getHistory st) = Inr (JHistory []) \<and>
    getItem STORAGE_KEY st = Some (JSON_stringify (JLegacy l))"
  then have "getHistory st = (Inr (JHistory []), st)"
    using getHistory_pair [of st] by simp
  with a show "getLastSavedCases st =
        (Inr (case legacySnapshot.cases l of Some c \<Rightarrow> c | None \<Rightarrow> []), st)"
    by (simp add: getLastSavedCases_def JSON_stringify_def JSON_parse_def)
next
  show "snd (getLastSavedCases st) = st" by (rule getLastSavedCases_snd)
next
  show "snd (getHistory st) = st" by (rule getHistory_snd)
qed

theorem getLastSavedCases_legacy_read_only_witness:
  "fst (getHistory legacyOnlyStorage) = Inr (JHistory []) \<and>
   getItem STORAGE_KEY legacyOnlyStorage =
     Some (JSON_stringify
       (JLegacy \<lparr>legacySnapshot.cases = Some priorCases,
                 lastFetch = ''2024-01-06T08:00:00.000Z''\<rparr>)) \<and>
   getLastSavedCases legacyOnlyStorage = (Inr priorCases, legacyOnlyStorage)"
  using getLastSavedCases_legacy_read_only
    [where st = legacyOnlyStorage
       and l = "\<lparr>legacySnapshot.cases = Some priorCases,
                  lastFetch = ''2024-01-06T08:00:00.000Z''\<rparr>"]
    getHistory_legacyOnly getItem_legacyOnly
  by simp




end
